theory Spec2Isabelle
  imports Complex_Main "HOL-Library.Multiset"
begin

section \<open>JavaScript strings\<close>

text \<open>
  A JavaScript string is a sequence of UTF-16 code units; \<open>length\<close>, \<open>startsWith\<close>,
  \<open>jsIncludes\<close> and the regular expressions of the program (none has the \<open>u\<close> flag) all
  work on code units. A code unit is a natural number, an ASCII literal is written
  \<open>js ''...''\<close>, and the Chinese and block characters of the source appear as their code
  points (all below \<open>0x10000\<close>, so one unit each).
\<close>

type_synonym jstring = "nat list"

definition js :: "string \<Rightarrow> jstring" where
  "js s = map of_char s"

text \<open>The white space of \<open>\s\<close> and of \<open>String.prototype.trim\<close> (ECMAScript WhiteSpace and
  LineTerminator), the digits of \<open>\d\<close>, and the line terminators that \<open>.\<close> refuses.\<close>

definition isSpace :: "nat \<Rightarrow> bool" where
  "isSpace c = (c \<in> set [9, 10, 11, 12, 13, 32, 160, 5760, 8232, 8233, 8239, 8287, 12288, 65279]
     \<or> (8192 \<le> c \<and> c \<le> 8202))"

definition isDigit :: "nat \<Rightarrow> bool" where
  "isDigit c = (48 \<le> c \<and> c \<le> 57)"

definition isLineTerminator :: "nat \<Rightarrow> bool" where
  "isLineTerminator c = (c \<in> set [10, 13, 8232, 8233])"

definition isCRLF :: "nat \<Rightarrow> bool" where
  "isCRLF c = (c = 13 \<or> c = 10)"

definition startsWith :: "jstring \<Rightarrow> jstring \<Rightarrow> bool" where
  "startsWith s p = (take (length p) s = p)"

fun jsIncludes :: "jstring \<Rightarrow> jstring \<Rightarrow> bool" where
  "jsIncludes [] p = (p = [])"
| "jsIncludes (c # cs) p = (startsWith (c # cs) p \<or> jsIncludes cs p)"

definition trim :: "jstring \<Rightarrow> jstring" where
  "trim s = rev (dropWhile isSpace (rev (dropWhile isSpace s)))"

text \<open>\<open>s.replace(/\s+/g, " ")\<close>: every maximal run of white space becomes one space.\<close>

function collapseWs :: "jstring \<Rightarrow> jstring" where
  "collapseWs [] = []"
| "collapseWs (c # cs) =
     (if isSpace c then 32 # collapseWs (dropWhile isSpace cs) else c # collapseWs cs)"
  by pat_completeness auto
termination
  by (relation "measure length") (auto simp: le_imp_less_Suc length_dropWhile_le)

text \<open>\<open>s.split(d)\<close> for a one-character separator: the empty string gives one empty field.\<close>

fun splitOn :: "nat \<Rightarrow> jstring \<Rightarrow> jstring list" where
  "splitOn d [] = [[]]"
| "splitOn d (c # cs) =
     (if c = d then [] # splitOn d cs
      else (case splitOn d cs of [] \<Rightarrow> [[c]] | f # fs \<Rightarrow> (c # f) # fs))"

text \<open>\<open>s.split(/[\r\n]+/)\<close>: the separators are the maximal runs of CR and LF (the
  quantifier is greedy and never matches the empty string); a string that starts or ends
  with a run has an empty first or last field.\<close>

function splitCRLF :: "jstring \<Rightarrow> jstring list" where
  "splitCRLF [] = [[]]"
| "splitCRLF (c # cs) =
     (if isCRLF c then [] # splitCRLF (dropWhile isCRLF cs)
      else (case splitCRLF cs of [] \<Rightarrow> [[c]] | f # fs \<Rightarrow> (c # f) # fs))"
  by pat_completeness auto
termination
  by (relation "measure length") (auto simp: le_imp_less_Suc length_dropWhile_le)

text \<open>\<open>s.replace(/p/g, r)\<close> for a literal, non-empty pattern \<open>p\<close>: the occurrences are
  found from the left and do not overlap; the replacement text is not scanned again.\<close>

function replaceAll :: "jstring \<Rightarrow> jstring \<Rightarrow> jstring \<Rightarrow> jstring" where
  "replaceAll p r [] = []"
| "replaceAll p r (c # cs) =
     (if p \<noteq> [] \<and> startsWith (c # cs) p
      then r @ replaceAll p r (drop (length p) (c # cs))
      else c # replaceAll p r cs)"
  by pat_completeness auto
termination
  by (relation "measure (\<lambda>(p, r, s). length s)") auto

text \<open>\<open>String(n)\<close> and template interpolation of a non-negative integer.\<close>

fun toString :: "nat \<Rightarrow> jstring" where
  "toString n = (if n < 10 then [48 + n] else toString (n div 10) @ [48 + n mod 10])"

declare toString.simps [simp del]

text \<open>\<open>parseInt\<close> is only ever applied to a capture of \<open>(\d+)\<close>; on such a string it is
  the decimal value of the digits. (JavaScript numbers are doubles: beyond \<open>2^53\<close> the value
  is rounded, which this model does not follow.)\<close>

definition parseInt :: "jstring \<Rightarrow> nat" where
  "parseInt s = fold (\<lambda>c n. 10 * n + (c - 48)) (takeWhile isDigit s) 0"

text \<open>\<open>parseFloat\<close> is only applied to a capture of \<open>(\d+\.?\d*)\<close>: the decimal number the
  text denotes. JavaScript holds the nearest double.\<close>

definition parseFloat :: "jstring \<Rightarrow> real" where
  "parseFloat s =
     (let ip = takeWhile isDigit s; rest = dropWhile isDigit s;
          fp = (if startsWith rest [46] then takeWhile isDigit (tl rest) else [])
      in real (parseInt ip) + real (parseInt fp) / 10 ^ length fp)"

text \<open>\<open>a || b\<close> where \<open>a\<close> is a string or \<open>undefined\<close>: the empty string is falsy too.\<close>

definition orElse :: "jstring option \<Rightarrow> jstring \<Rightarrow> jstring" where
  "orElse a b = (case a of None \<Rightarrow> b | Some s \<Rightarrow> if s = [] then b else s)"

section \<open>Regular expressions\<close>

text \<open>
  The regular expressions of the program, as syntax trees, and a backtracking matcher with
  the priorities of ECMAScript: \<open>ms r (s, k)\<close> lists, in the order in which the engine tries
  them, the ways \<open>r\<close> can match a prefix of \<open>s\<close>, each as the rest of the input and the
  captures so far. A greedy star tries one more iteration first, a lazy star tries none
  first, and an iteration that consumes nothing is not taken.
\<close>

datatype cls = Digit | Space | NonSpace | Dot | OneOf "nat list" | AlNum

fun inCls :: "cls \<Rightarrow> nat \<Rightarrow> bool" where
  "inCls Digit c = isDigit c"
| "inCls Space c = isSpace c"
| "inCls NonSpace c = (\<not> isSpace c)"
| "inCls Dot c = (\<not> isLineTerminator c)"
| "inCls (OneOf cs) c = (c \<in> set cs)"
| "inCls AlNum c = ((97 \<le> c \<and> c \<le> 122) \<or> (65 \<le> c \<and> c \<le> 90) \<or> (48 \<le> c \<and> c \<le> 57))"

datatype re = Atom cls | Eps | Seq re re | Star re | LazyStar re | Opt re | Group nat re

type_synonym caps = "(nat \<times> jstring) list"
type_synonym mstate = "jstring \<times> caps"

function (sequential) ms :: "re \<Rightarrow> mstate \<Rightarrow> mstate list" where
  "ms (Atom c) (s, k) = (case s of [] \<Rightarrow> [] | x # xs \<Rightarrow> if inCls c x then [(xs, k)] else [])"
| "ms Eps st = [st]"
| "ms (Seq a b) st = concat (map (ms b) (ms a st))"
| "ms (Star r) (s, k) =
     concat (map (\<lambda>st'. if length (fst st') < length s then ms (Star r) st' else []) (ms r (s, k)))
     @ [(s, k)]"
| "ms (LazyStar r) (s, k) =
     (s, k) # concat (map (\<lambda>st'. if length (fst st') < length s then ms (LazyStar r) st' else [])
                        (ms r (s, k)))"
| "ms (Opt r) st = ms r st @ [st]"
| "ms (Group n r) (s, k) =
     map (\<lambda>st'. (fst st', (n, take (length s - length (fst st')) s) # snd st')) (ms r (s, k))"
  by pat_completeness auto
termination
  by (relation "inv_image (measure size <*lex*> measure length) (\<lambda>(r, st). (r, fst st))") auto

definition Plus :: "re \<Rightarrow> re" where
  "Plus r = Seq r (Star r)"

fun Str :: "jstring \<Rightarrow> re" where
  "Str [] = Eps"
| "Str (c # cs) = Seq (Atom (OneOf [c])) (Str cs)"

fun Cat :: "re list \<Rightarrow> re" where
  "Cat [] = Eps"
| "Cat (r # rs) = Seq r (Cat rs)"

text \<open>A match attempt at the start of \<open>s\<close>, and \<open>s.match(r)\<close> without the \<open>g\<close> flag: the
  first start position, from the left, at which an attempt succeeds.\<close>

definition execAt :: "re \<Rightarrow> jstring \<Rightarrow> caps option" where
  "execAt r s = (case ms r (s, []) of [] \<Rightarrow> None | st # _ \<Rightarrow> Some (snd st))"

fun search :: "re \<Rightarrow> jstring \<Rightarrow> caps option" where
  "search r [] = execAt r []"
| "search r (c # cs) = (case execAt r (c # cs) of Some k \<Rightarrow> Some k | None \<Rightarrow> search r cs)"

text \<open>\<open>m[n]\<close> of a successful match; every group of the program's expressions takes part in
  every match, so it is never \<open>undefined\<close>.\<close>

definition group :: "caps \<Rightarrow> nat \<Rightarrow> jstring" where
  "group k n = (case map_of k n of None \<Rightarrow> [] | Some s \<Rightarrow> s)"

text \<open>\<open>/chapter_id=([a-zA-Z0-9]+)/\<close>\<close>

definition chapterIdRe :: re where
  "chapterIdRe = Cat [Str (js ''chapter_id=''), Group 1 (Plus (Atom AlNum))]"

text \<open>The "latest episode" shortcut, U+7B2C \<open>\s*\d+\s*\<close> U+96C6 \<open>\s*\<close> U+7B2C \<open>\d+\<close> U+8A71.\<close>

definition shortcutRe :: re where
  "shortcutRe = Cat [Str [31532], Star (Atom Space), Plus (Atom Digit), Star (Atom Space),
     Str [38598], Star (Atom Space), Str [31532], Plus (Atom Digit), Str [35441]]"

text \<open>The episode ordinal, U+7B2C \<open>\s*(\d+)\s*\<close> and one of U+8A71, U+8BDD, U+96C6.\<close>

definition numberRe :: re where
  "numberRe = Cat [Str [31532], Star (Atom Space), Group 1 (Plus (Atom Digit)), Star (Atom Space),
     Atom (OneOf [35441, 35805, 38598])]"

text \<open>\<open>/Ep\.(\d+).*?(\d+\.?\d*)%\s*\|\s*(\S+)\/(\S+)\s*\|\s*(\S+\/s)\s*\|.*?\|\s*ETA:\s*(\S+)/\<close>\<close>

definition progressRe :: re where
  "progressRe = Cat [Str (js ''Ep.''), Group 1 (Plus (Atom Digit)), LazyStar (Atom Dot),
     Group 2 (Cat [Plus (Atom Digit), Opt (Atom (OneOf (js ''.''))), Star (Atom Digit)]),
     Str (js ''%''), Star (Atom Space), Str (js ''|''), Star (Atom Space),
     Group 3 (Plus (Atom NonSpace)), Str (js ''/''), Group 4 (Plus (Atom NonSpace)),
     Star (Atom Space), Str (js ''|''), Star (Atom Space),
     Group 5 (Cat [Plus (Atom NonSpace), Str (js ''/s'')]),
     Star (Atom Space), Str (js ''|''), LazyStar (Atom Dot), Str (js ''|''), Star (Atom Space),
     Str (js ''ETA:''), Star (Atom Space), Group 6 (Plus (Atom NonSpace))]"

text \<open>\<open>/Ep\.(\d+)/\<close>, \<open>/\[(\d+)\/(\d+)\]/\<close> and \<open>/SKIP\s+(\d+)_/\<close>\<close>

definition epRe :: re where
  "epRe = Cat [Str (js ''Ep.''), Group 1 (Plus (Atom Digit))]"

definition skipIdxRe :: re where
  "skipIdxRe = Cat [Str (js ''[''), Group 1 (Plus (Atom Digit)), Str (js ''/''),
     Group 2 (Plus (Atom Digit)), Str (js '']'')]"

definition skipEpRe :: re where
  "skipEpRe = Cat [Str (js ''SKIP''), Plus (Atom Space), Group 1 (Plus (Atom Digit)), Str (js ''_'')]"

section \<open>Page fetcher: the redirect target\<close>

text \<open>
  \<open>fetchUrl\<close> reads \<open>protocol\<close> (with its colon) and \<open>host\<close> of \<open>new URL(url)\<close>, the
  platform's parser applied to the request URL, which is taken here as parsed. A response is
  its status code and its \<open>Location\<close> header; \<open>onResponse\<close> is the callback's decision.
\<close>

record ParsedUrl =
  protocol :: jstring
  host :: jstring

definition redirectUrl :: "ParsedUrl \<Rightarrow> jstring \<Rightarrow> jstring" where
  "redirectUrl parsed location =
     (if startsWith location (js ''/'')
      then protocol parsed @ js ''//'' @ host parsed @ location
      else if \<not> startsWith location (js ''http'')
      then protocol parsed @ js ''//'' @ host parsed @ js ''/'' @ location
      else location)"

record Response =
  statusCode :: "nat option"
  location :: "jstring option"

datatype FetchStep = Follow jstring | HttpError "nat option" | ReadBody

definition onResponse :: "ParsedUrl \<Rightarrow> Response \<Rightarrow> FetchStep" where
  "onResponse parsed res =
     (case statusCode res of
        None \<Rightarrow> HttpError None
      | Some code \<Rightarrow>
          if code \<noteq> 0 \<and> 300 \<le> code \<and> code < 400 \<and> orElse (location res) [] \<noteq> []
          then Follow (redirectUrl parsed (orElse (location res) []))
          else if code \<noteq> 200 then HttpError (Some code) else ReadBody)"

section \<open>Scraping: entity decoding and the search extractor\<close>

definition SEARCH_BASE :: jstring where
  "SEARCH_BASE = js ''https://tw.xgcartoon.com''"

definition VIDEO_BASE :: jstring where
  "VIDEO_BASE = js ''https://tw.xgcartoon.com''"

definition IMAGE_BASE :: jstring where
  "IMAGE_BASE = js ''https://static-a.xgcartoon.com''"

definition decodeHtmlEntities :: "jstring \<Rightarrow> jstring" where
  "decodeHtmlEntities str =
     replaceAll (js ''&#39;'') [39]
       (replaceAll (js ''&quot;'') [34]
         (replaceAll (js ''&gt;'') (js ''>'')
           (replaceAll (js ''&lt;'') (js ''<'')
             (replaceAll (js ''&amp;'') (js ''&'') str))))"

text \<open>The five entities the decoder knows, and whether one of them occurs in a string.\<close>

definition entities :: "jstring list" where
  "entities = [js ''&amp;'', js ''&lt;'', js ''&gt;'', js ''&quot;'', js ''&#39;'']"

definition hasEntity :: "jstring \<Rightarrow> bool" where
  "hasEntity s = list_ex (jsIncludes s) entities"

text \<open>
  An anchor of the search page, as the answers of the queries \<open>searchAnime\<close> makes on it
  (the HTML parser is a library): its \<open>href\<close>, the \<open>src\<close> of each \<open>amp-img\<close> below it, the
  \<open>data-src\<close> and \<open>src\<close> of each \<open>img\<close>, the text of each element matching the title
  selectors, its whole text, the text of each tag element, and the joint text of the author
  elements. \<open>attr\<close> on a selection reads the first element.
\<close>

record SearchAnchor =
  sa_href :: "jstring option"
  sa_ampImgSrc :: "jstring option list"
  sa_imgAttrs :: "(jstring option \<times> jstring option) list"
  sa_titleTexts :: "jstring list"
  sa_text :: jstring
  sa_tagTexts :: "jstring list"
  sa_authorText :: jstring

record SearchResult =
  sr_title :: jstring
  sr_image :: jstring
  sr_tags :: "jstring list"
  sr_author :: jstring
  sr_detailUrl :: jstring

definition absoluteDetailUrl :: "jstring \<Rightarrow> jstring" where
  "absoluteDetailUrl href =
     (if startsWith href (js ''/'') then SEARCH_BASE @ href
      else if \<not> startsWith href (js ''http'') then SEARCH_BASE @ js ''/'' @ href
      else href)"

definition fixImageUrl :: "jstring \<Rightarrow> jstring" where
  "fixImageUrl img =
     (if img \<noteq> [] \<and> \<not> startsWith img (js ''http'')
      then (if startsWith img (js ''//'') then js ''https:'' @ img
            else if startsWith img (js ''/'') then IMAGE_BASE @ img
            else img)
      else img)"

definition extractImage :: "SearchAnchor \<Rightarrow> jstring" where
  "extractImage el =
     (let image0 = (case sa_ampImgSrc el of [] \<Rightarrow> [] | src # _ \<Rightarrow> orElse src []);
          image1 = (if image0 = []
                    then (case sa_imgAttrs el of
                            [] \<Rightarrow> []
                          | (dataSrc, src) # _ \<Rightarrow> orElse dataSrc (orElse src []))
                    else image0)
      in decodeHtmlEntities (fixImageUrl image1))"

definition longer :: "jstring \<Rightarrow> jstring \<Rightarrow> jstring" where
  "longer cand best = (if length cand > length best then cand else best)"

definition extractTitle :: "SearchAnchor \<Rightarrow> jstring" where
  "extractTitle el =
     (let title = fold (\<lambda>t best. longer (trim t) best) (sa_titleTexts el) []
      in if title = []
         then (let allText = trim (sa_text el);
                   lines = filter (\<lambda>l. length l > 2) (map trim (splitOn 10 allText))
               in fold longer lines [])
         else title)"

definition extractTags :: "SearchAnchor \<Rightarrow> jstring list" where
  "extractTags el =
     filter (\<lambda>text. text \<noteq> [] \<and> length text < 10 \<and> \<not> jsIncludes text [10])
       (map trim (sa_tagTexts el))"

definition accepted :: "SearchAnchor \<Rightarrow> bool" where
  "accepted el = (extractTitle el \<noteq> [] \<and> length (extractTitle el) > 1)"

definition toResult :: "SearchAnchor \<Rightarrow> jstring \<Rightarrow> SearchResult" where
  "toResult el detailUrl =
     \<lparr>sr_title = extractTitle el, sr_image = extractImage el, sr_tags = extractTags el,
      sr_author = trim (sa_authorText el), sr_detailUrl = detailUrl\<rparr>"

text \<open>The loop over the anchors that match \<open>a[href*="/detail/"]\<close>, in document order, with
  the set \<open>seenUrls\<close>. An anchor's URL is recorded as seen before its title is looked at.\<close>

fun searchLoop :: "jstring set \<Rightarrow> SearchAnchor list \<Rightarrow> SearchResult list" where
  "searchLoop seenUrls [] = []"
| "searchLoop seenUrls (el # els) =
     (let detailUrl = absoluteDetailUrl (orElse (sa_href el) [])
      in if detailUrl \<in> seenUrls then searchLoop seenUrls els
         else if accepted el
         then toResult el detailUrl # searchLoop (insert detailUrl seenUrls) els
         else searchLoop (insert detailUrl seenUrls) els)"

definition searchAnime :: "SearchAnchor list \<Rightarrow> SearchResult list" where
  "searchAnime anchors = searchLoop {} anchors"

section \<open>Detail extractor: seasons and episodes\<close>

record Episode =
  number :: nat
  title :: jstring
  href :: jstring

record Season =
  name :: jstring
  episodes :: "Episode list"

text \<open>The words of navigation and action buttons (\<open>SKIP_WORDS\<close>), as code points.\<close>

definition SKIP_WORDS :: "jstring list" where
  "SKIP_WORDS = [[25773, 25918], [25910, 34255], [20998, 20139], [33289, 22577],
     [30331, 20837], [30331, 37636], [27880, 20874], [35387, 20874]]"

text \<open>
  The body that both strategies run on a link: the link's text and \<open>href\<close> attribute come
  in, the set \<open>seenChapterIds\<close> is threaded through, and an episode is pushed or the link is
  skipped. The chapter id is recorded as seen before the shortcut test.
\<close>

definition parseEpisodeLink ::
  "jstring set \<Rightarrow> jstring \<Rightarrow> jstring option \<Rightarrow> jstring set \<times> Episode option" where
  "parseEpisodeLink seenChapterIds text hrefAttr =
     (let epTitle = collapseWs (trim text); epHref = orElse hrefAttr []
      in if epTitle = [] then (seenChapterIds, None)
         else if list_ex (jsIncludes epTitle) SKIP_WORDS then (seenChapterIds, None)
         else if length epTitle < 2 then (seenChapterIds, None)
         else (case (case search chapterIdRe epHref of
                       None \<Rightarrow> Some seenChapterIds
                     | Some m \<Rightarrow> if group m 1 \<in> seenChapterIds then None
                                else Some (insert (group m 1) seenChapterIds)) of
                 None \<Rightarrow> (seenChapterIds, None)
               | Some seen' \<Rightarrow>
                   if search shortcutRe epTitle \<noteq> None then (seen', None)
                   else (let epNumber = (case search numberRe epTitle of
                                           None \<Rightarrow> 0
                                         | Some m \<Rightarrow> parseInt (group m 1))
                         in (seen', Some \<lparr>number = epNumber, title = epTitle, href = epHref\<rparr>))))"

text \<open>
  A detail page, as the answers of the queries made on it: the children of the parent of the
  first \<open>.volume-title\<close> element if there is one (a child is a season header with its text,
  or anything else with the \<open>a.goto-chapter\<close> links found below it), and all the
  \<open>a.goto-chapter\<close> links of the document.
\<close>

record GotoLink =
  gl_text :: jstring
  gl_href :: "jstring option"

datatype Child = VolumeTitle jstring | Other "GotoLink list"

record DetailPage =
  container :: "Child list option"
  gotoChapterLinks :: "GotoLink list"

text \<open>The season that is pushed; its name falls back to U+5168 \<open>N\<close> U+8A71.\<close>

definition allEpisodesName :: "nat \<Rightarrow> jstring" where
  "allEpisodesName n = [20840, 32] @ toString n @ [32, 35441]"

definition pushSeason :: "Season list \<Rightarrow> jstring \<Rightarrow> Episode list \<Rightarrow> Season list" where
  "pushSeason seasons currentSeasonName currentEpisodes =
     (if currentEpisodes \<noteq> []
      then seasons @ [\<lparr>name = (if currentSeasonName = []
                                then allEpisodesName (length currentEpisodes)
                                else currentSeasonName),
                        episodes = currentEpisodes\<rparr>]
      else seasons)"

text \<open>Primary strategy: the walk over the container's children.\<close>

fun walkChildren ::
  "Season list \<Rightarrow> jstring \<Rightarrow> Episode list \<Rightarrow> jstring set \<Rightarrow> Child list \<Rightarrow> Season list" where
  "walkChildren seasons nm eps seen [] = pushSeason seasons nm eps"
| "walkChildren seasons nm eps seen (VolumeTitle t # cs) =
     walkChildren (pushSeason seasons nm eps) (trim t) [] seen cs"
| "walkChildren seasons nm eps seen (Other links # cs) =
     (case links of
        [] \<Rightarrow> walkChildren seasons nm eps seen cs
      | l # _ \<Rightarrow>
          (case parseEpisodeLink seen (concat (map gl_text links)) (gl_href l) of
             (seen', None) \<Rightarrow> walkChildren seasons nm eps seen' cs
           | (seen', Some ep) \<Rightarrow> walkChildren seasons nm (eps @ [ep]) seen' cs))"

text \<open>Sorting by number (\<open>Array.prototype.sort\<close> is stable) and the pass that gives every
  zero-numbered episode the number after its predecessor's.\<close>

fun fixNumbering :: "nat \<Rightarrow> Episode list \<Rightarrow> Episode list" where
  "fixNumbering seqNum [] = []"
| "fixNumbering seqNum (ep # eps) =
     (let ep' = (if number ep = 0 then ep\<lparr>number := seqNum\<rparr> else ep)
      in ep' # fixNumbering (number ep' + 1) eps)"

definition sortAndFix :: "Episode list \<Rightarrow> Episode list" where
  "sortAndFix eps = fixNumbering 1 (sort_key number eps)"

text \<open>Fallback strategy: the links whose \<open>href\<close> contains \<open>chapter_id=\<close>, flat.\<close>

fun collectFlat :: "jstring set \<Rightarrow> GotoLink list \<Rightarrow> Episode list" where
  "collectFlat seen [] = []"
| "collectFlat seen (l # ls) =
     (case parseEpisodeLink seen (gl_text l) (gl_href l) of
        (seen', None) \<Rightarrow> collectFlat seen' ls
      | (seen', Some ep) \<Rightarrow> ep # collectFlat seen' ls)"

definition hasChapterIdAttr :: "GotoLink \<Rightarrow> bool" where
  "hasChapterIdAttr l =
     (case gl_href l of None \<Rightarrow> False | Some h \<Rightarrow> jsIncludes h (js ''chapter_id=''))"

definition fallbackSeasons :: "GotoLink list \<Rightarrow> Season list" where
  "fallbackSeasons links =
     (let eps = sortAndFix (collectFlat {} (filter hasChapterIdAttr links))
      in if eps \<noteq> [] then [\<lparr>name = allEpisodesName (length eps), episodes = eps\<rparr>] else [])"

definition extractSeasons :: "DetailPage \<Rightarrow> Season list" where
  "extractSeasons page =
     (case container page of
        Some children \<Rightarrow> walkChildren [] [] [] {} children
      | None \<Rightarrow> fallbackSeasons (gotoChapterLinks page))"

text \<open>Post-processing of every season, and the seasons \<open>getAnimeDetail\<close> returns.\<close>

definition postProcess :: "Season \<Rightarrow> Season" where
  "postProcess season = season\<lparr>episodes := sortAndFix (episodes season)\<rparr>"

definition getSeasons :: "DetailPage \<Rightarrow> Season list" where
  "getSeasons page = map postProcess (extractSeasons page)"

section \<open>Progress protocol parser\<close>

record ProgressData =
  pd_cartoonId :: jstring
  episode :: nat
  percent :: real
  downloaded :: "jstring option"
  total :: "jstring option"
  speed :: "jstring option"
  eta :: "jstring option"
  status :: "jstring option"
  filename :: "jstring option"

datatype IpcMessage =
    DownloadProgress ProgressData
  | DownloadLog jstring
  | DownloadComplete int
  | DownloadError jstring

definition statusEvent :: "jstring \<Rightarrow> nat \<Rightarrow> real \<Rightarrow> jstring \<Rightarrow> IpcMessage" where
  "statusEvent cid ep pct st =
     DownloadProgress \<lparr>pd_cartoonId = cid, episode = ep, percent = pct, downloaded = None,
       total = None, speed = None, eta = None, status = Some st, filename = None\<rparr>"

text \<open>What one trimmed, non-empty line of the worker's output sends to the window.\<close>

definition classifyLine :: "jstring \<Rightarrow> jstring \<Rightarrow> IpcMessage list" where
  "classifyLine cid line =
     (case search progressRe line of
        Some m \<Rightarrow>
          [DownloadProgress \<lparr>pd_cartoonId = cid, episode = parseInt (group m 1),
             percent = parseFloat (group m 2), downloaded = Some (group m 3),
             total = Some (group m 4), speed = Some (group m 5), eta = Some (group m 6),
             status = None, filename = None\<rparr>]
      | None \<Rightarrow>
          if jsIncludes line (js ''Done in'')
          then (case search epRe line of
                  Some m \<Rightarrow> [statusEvent cid (parseInt (group m 1)) 100 (js ''done'')]
                | None \<Rightarrow> [])
          else if jsIncludes line (js ''SKIP'')
          then (let skipIdxMatch = search skipIdxRe line;
                    skipEpMatch = search skipEpRe line;
                    epNum = (case skipEpMatch of
                               Some m \<Rightarrow> parseInt (group m 1)
                             | None \<Rightarrow> (case skipIdxMatch of
                                           Some m \<Rightarrow> parseInt (group m 1)
                                         | None \<Rightarrow> 0))
                in if epNum > 0 then [statusEvent cid epNum 100 (js ''skipped'')] else [])
          else if jsIncludes line (js ''FAILED'') \<or> jsIncludes line (replicate 10 88)
          then (case search epRe line of
                  Some m \<Rightarrow> [statusEvent cid (parseInt (group m 1)) 0 (js ''failed'')]
                | None \<Rightarrow> [])
          else if jsIncludes line (js ''[INFO]'') \<or> jsIncludes line (js ''[COMPLETE]'')
                  \<or> jsIncludes line (js ''[DOWNLOADING]'') \<or> jsIncludes line (js ''[ERROR]'')
                  \<or> jsIncludes line (js ''[WARNING]'')
          then [DownloadLog line]
          else [])"

definition handleRawLine :: "jstring \<Rightarrow> jstring \<Rightarrow> IpcMessage list" where
  "handleRawLine cid rawLine =
     (let line = trim rawLine in if line = [] then [] else classifyLine cid line)"

text \<open>The \<open>data\<close> handler of the worker's stdout: the carry-over \<open>buffer\<close> and a chunk come
  in, the messages sent and the new carry-over come out.\<close>

definition onStdoutData :: "jstring \<Rightarrow> jstring \<Rightarrow> jstring \<Rightarrow> IpcMessage list \<times> jstring" where
  "onStdoutData cid buffer data =
     (let lines = splitCRLF (buffer @ data)
      in (concat (map (handleRawLine cid) (butlast lines)), last lines))"

text \<open>A run of the handler over the chunks of a stream, in arrival order.\<close>

fun feedChunks :: "jstring \<Rightarrow> jstring \<Rightarrow> jstring list \<Rightarrow> IpcMessage list \<times> jstring" where
  "feedChunks cid buffer [] = ([], buffer)"
| "feedChunks cid buffer (data # rest) =
     (case onStdoutData cid buffer data of
        (msgs, buffer') \<Rightarrow>
          (case feedChunks cid buffer' rest of (msgs', buffer'') \<Rightarrow> (msgs @ msgs', buffer'')))"

definition onStderrData :: "jstring \<Rightarrow> IpcMessage list" where
  "onStderrData data =
     (let text = trim data in if text \<noteq> [] then [DownloadLog (js ''[ERROR] '' @ text)] else [])"

section \<open>Download queue\<close>

record DownloadOptions =
  cartoonId :: jstring
  opt_episodes :: "Episode list"
  outputDir :: jstring
  detailUrl :: jstring

record QueueItem =
  win :: nat
  options :: DownloadOptions

text \<open>
  The module's state: the queue, the handle of the active worker and the flag, and with
  them what the module has done to the outside: the workers spawned (a worker's handle is
  its position in that list; its entry holds the arguments after the script path and the
  job whose window and id its handlers closed over), the handles killed, and the messages
  sent to windows.
\<close>

record Worker =
  w_args :: "jstring list"
  w_item :: QueueItem

record QState =
  downloadQueue :: "QueueItem list"
  activeDownloadProcess :: "nat option"
  queueProcessing :: bool
  spawned :: "Worker list"
  killed :: "nat list"
  sent :: "(nat \<times> IpcMessage) list"

datatype JsError = TypeError

definition initialState :: QState where
  "initialState = \<lparr>downloadQueue = [], activeDownloadProcess = None, queueProcessing = False,
     spawned = [], killed = [], sent = []\<rparr>"

definition videoUrlOf :: "jstring \<Rightarrow> Episode \<Rightarrow> jstring" where
  "videoUrlOf cid firstEp =
     (if href firstEp \<noteq> [] \<and> jsIncludes (href firstEp) (js ''/video/'')
      then (if startsWith (href firstEp) (js ''http'') then href firstEp
            else VIDEO_BASE @ href firstEp)
      else (case search chapterIdRe (href firstEp) of
              Some m \<Rightarrow> VIDEO_BASE @ js ''/video/'' @ cid @ js ''/'' @ group m 1 @ js ''.html''
            | None \<Rightarrow> VIDEO_BASE @ js ''/video/'' @ cid @ js ''/'' @ href firstEp @ js ''.html''))"

definition rangeArgs :: "Episode list \<Rightarrow> jstring list" where
  "rangeArgs eps =
     (case map number eps of
        [] \<Rightarrow> []
      | n # ns \<Rightarrow> [toString (fold min ns n), toString (fold max ns n)])"

text \<open>
  \<open>processQueue\<close> returns the state it leaves and the exception it throws, if any:
  \<open>episodes[0]\<close> of an empty list is \<open>undefined\<close>, and reading \<open>href\<close> of it throws after the
  flag has been set.
\<close>

definition processQueue :: "QState \<Rightarrow> QState \<times> JsError option" where
  "processQueue st =
     (case downloadQueue st of
        [] \<Rightarrow> (st\<lparr>queueProcessing := False\<rparr>, None)
      | current # _ \<Rightarrow>
          (let st1 = st\<lparr>queueProcessing := True\<rparr>
           in case opt_episodes (options current) of
                [] \<Rightarrow> (st1, Some TypeError)
              | firstEp # _ \<Rightarrow>
                  (let videoUrl = videoUrlOf (cartoonId (options current)) firstEp;
                       args = [videoUrl, outputDir (options current)]
                              @ rangeArgs (opt_episodes (options current));
                       proc = length (spawned st1)
                   in (st1\<lparr>spawned := spawned st1 @ [\<lparr>w_args = args, w_item = current\<rparr>],
                           activeDownloadProcess := Some proc\<rparr>, None))))"

definition startDownload :: "QueueItem \<Rightarrow> QState \<Rightarrow> QState \<times> JsError option" where
  "startDownload item st =
     (let st1 = st\<lparr>downloadQueue := downloadQueue st @ [item]\<rparr>
      in if \<not> queueProcessing st1 then processQueue st1 else (st1, None))"

text \<open>The \<open>close\<close> and \<open>error\<close> handlers of worker \<open>proc\<close>; \<open>shift\<close> of an empty queue
  does nothing. A handle that was never spawned has no handlers.\<close>

definition onClose :: "nat \<Rightarrow> int option \<Rightarrow> QState \<Rightarrow> QState \<times> JsError option" where
  "onClose proc code st =
     (if proc < length (spawned st)
      then processQueue
             (st\<lparr>activeDownloadProcess := None,
                 sent := sent st @ [(win (w_item (spawned st ! proc)),
                                     DownloadComplete (case code of None \<Rightarrow> 1 | Some c \<Rightarrow> c))],
                 downloadQueue := drop 1 (downloadQueue st)\<rparr>)
      else (st, None))"

definition onError :: "nat \<Rightarrow> jstring \<Rightarrow> QState \<Rightarrow> QState \<times> JsError option" where
  "onError proc msg st =
     (if proc < length (spawned st)
      then processQueue
             (st\<lparr>activeDownloadProcess := None,
                 sent := sent st @ [(win (w_item (spawned st ! proc)), DownloadError msg)],
                 downloadQueue := drop 1 (downloadQueue st)\<rparr>)
      else (st, None))"

text \<open>The \<open>cancel-download\<close> handler; the flag tells whether a worker was active.\<close>

definition cancelDownload :: "QState \<Rightarrow> QState \<times> bool" where
  "cancelDownload st =
     (let st1 = st\<lparr>downloadQueue := []\<rparr>
      in case activeDownloadProcess st1 of
           Some proc \<Rightarrow> (st1\<lparr>killed := killed st1 @ [proc], activeDownloadProcess := None\<rparr>, True)
         | None \<Rightarrow> (st1, False))"

section \<open>Notions used to state the properties\<close>

text \<open>The URL that \<open>searchAnime\<close> records for an anchor.\<close>

definition detailUrlOf :: "SearchAnchor \<Rightarrow> jstring" where
  "detailUrlOf el = absoluteDetailUrl (orElse (sa_href el) [])"



text \<open>A link's title as the extractor cleans it, the titles that pass the three text tests
  and the shortcut test, and when a link, a container child or an episode entry carries a
  given title and \<open>href\<close>.\<close>

definition cleanTitle :: "jstring \<Rightarrow> jstring" where
  "cleanTitle text = collapseWs (trim text)"

definition isEpisodeTitle :: "jstring \<Rightarrow> bool" where
  "isEpisodeTitle t = (t \<noteq> [] \<and> \<not> list_ex (jsIncludes t) SKIP_WORDS \<and> \<not> length t < 2
     \<and> search shortcutRe t = None)"

definition linkIs :: "jstring \<Rightarrow> jstring \<Rightarrow> GotoLink \<Rightarrow> bool" where
  "linkIs t h l = (cleanTitle (gl_text l) = t \<and> orElse (gl_href l) [] = h)"

definition childIs :: "jstring \<Rightarrow> jstring \<Rightarrow> Child \<Rightarrow> bool" where
  "childIs t h ch =
     (case ch of
        VolumeTitle _ \<Rightarrow> False
      | Other links \<Rightarrow>
          (case links of
             [] \<Rightarrow> False
           | l # _ \<Rightarrow> cleanTitle (concat (map gl_text links)) = t \<and> orElse (gl_href l) [] = h))"

definition entryIs :: "jstring \<Rightarrow> jstring \<Rightarrow> Episode \<Rightarrow> bool" where
  "entryIs t h ep = (title ep = t \<and> href ep = h)"

text \<open>The episodes the primary walk pushes, in order, without the grouping into seasons.\<close>

fun collectChildren :: "jstring set \<Rightarrow> Child list \<Rightarrow> Episode list" where
  "collectChildren seen [] = []"
| "collectChildren seen (VolumeTitle t # cs) = collectChildren seen cs"
| "collectChildren seen (Other links # cs) =
     (case links of
        [] \<Rightarrow> collectChildren seen cs
      | l # _ \<Rightarrow>
          (case parseEpisodeLink seen (concat (map gl_text links)) (gl_href l) of
             (seen', None) \<Rightarrow> collectChildren seen' cs
           | (seen', Some ep) \<Rightarrow> ep # collectChildren seen' cs))"

text \<open>A character-by-character reading of a stream: the non-empty lines completed so far
  and the line in progress.\<close>

fun scanLines :: "jstring \<Rightarrow> jstring \<Rightarrow> jstring list \<times> jstring" where
  "scanLines cur [] = ([], cur)"
| "scanLines cur (c # cs) =
     (if isCRLF c
      then (case scanLines [] cs of (ls, k) \<Rightarrow> ((if cur = [] then ls else cur # ls), k))
      else scanLines (cur @ [c]) cs)"

text \<open>A queue with nothing queued, nothing running and the flag down.\<close>

definition idle :: "QState \<Rightarrow> bool" where
  "idle st = (downloadQueue st = [] \<and> activeDownloadProcess st = None \<and> \<not> queueProcessing st)"

section \<open>Example inputs\<close>

definition mkEpisode :: "nat \<Rightarrow> string \<Rightarrow> Episode" where
  "mkEpisode n t = \<lparr>number = n, title = js t, href = js ''/video/abc/'' @ js t @ js ''.html''\<rparr>"


definition anchorWithTitle :: "string \<Rightarrow> SearchAnchor" where
  "anchorWithTitle t = \<lparr>sa_href = Some (js ''/detail/abc''), sa_ampImgSrc = [], sa_imgAttrs = [],
     sa_titleTexts = [js t], sa_text = js t, sa_tagTexts = [], sa_authorText = []\<rparr>"

definition job :: "nat \<Rightarrow> string \<Rightarrow> Episode list \<Rightarrow> QueueItem" where
  "job w cid eps = \<lparr>win = w, options = \<lparr>cartoonId = js cid, opt_episodes = eps,
     outputDir = js ''/tmp/out'', detailUrl = js ''/detail/'' @ js cid\<rparr>\<rparr>"

definition jobA :: QueueItem where
  "jobA = job 1 ''a'' [mkEpisode 1 ''1'']"

definition jobB :: QueueItem where
  "jobB = job 1 ''b'' [mkEpisode 2 ''2'']"

definition jobC :: QueueItem where
  "jobC = job 1 ''c'' [mkEpisode 3 ''3'']"

text \<open>The progress line of the specification's example; the bar is four U+2588 and two
  U+2591.\<close>

definition progressLine :: jstring where
  "progressLine = js ''Ep.005 ['' @ [9608, 9608, 9608, 9608, 9617, 9617]
     @ js ''] 42.5% | 50MB/120MB | 3.1MB/s | 00:10 | ETA: 00:14''"

text \<open>A link titled U+7B2C \<open>1\<close> U+8A71 whose \<open>href\<close> has no chapter id.\<close>

definition plainLink :: GotoLink where
  "plainLink = \<lparr>gl_text = [31532, 49, 35441], gl_href = Some (js ''/video/abc/1.html'')\<rparr>"

section \<open>Post-processing of a season\<close>

















section \<open>Entity decoding\<close>

lemma replaceAll_absent: "\<not> jsIncludes s p \<Longrightarrow> replaceAll p r s = s"
proof (induction p r s rule: replaceAll.induct)
  case (1 p r)
  then show ?case by simp
next
  case (2 p r c cs)
  from 2(3) have a: "\<not> startsWith (c # cs) p" and b: "\<not> jsIncludes cs p" by simp_all
  from a b 2(2) show ?case by simp
qed

lemma startsWith_length: "startsWith s p \<Longrightarrow> length p \<le> length s"
proof -
  assume "startsWith s p"
  then have "length (take (length p) s) = length p"
    by (simp add: startsWith_def)
  then show ?thesis by simp
qed

lemma length_replaceAll_le:
  "length r \<le> length p \<Longrightarrow> length (replaceAll p r s) \<le> length s"
proof (induction p r s rule: replaceAll.induct)
  case (1 p r)
  then show ?case by simp
next
  case (2 p r c cs)
  show ?case
  proof (cases "p \<noteq> [] \<and> startsWith (c # cs) p")
    case True
    then have le: "length p \<le> length (c # cs)"
      by (auto dest: startsWith_length)
    from True have eq: "replaceAll p r (c # cs) = r @ replaceAll p r (drop (length p) (c # cs))"
      by (simp del: drop_Suc_Cons)
    have "length (replaceAll p r (drop (length p) (c # cs))) \<le> length (c # cs) - length p"
      using 2(1) [OF True 2(3)] by (simp del: drop_Suc_Cons)
    with le 2(3) show ?thesis unfolding eq by (simp del: drop_Suc_Cons)
  next
    case False
    then have eq: "replaceAll p r (c # cs) = c # replaceAll p r cs"
      by auto
    from 2(2) [OF False 2(3)] show ?thesis unfolding eq by simp
  qed
qed

lemma length_replaceAll_less:
  "length r < length p \<Longrightarrow> jsIncludes s p \<Longrightarrow> length (replaceAll p r s) < length s"
proof (induction p r s rule: replaceAll.induct)
  case (1 p r)
  then show ?case by simp
next
  case (2 p r c cs)
  from 2(3) have pne: "p \<noteq> []" by auto
  show ?case
  proof (cases "startsWith (c # cs) p")
    case True
    then have le: "length p \<le> length (c # cs)"
      by (auto dest: startsWith_length)
    from True pne have eq: "replaceAll p r (c # cs) = r @ replaceAll p r (drop (length p) (c # cs))"
      by (simp del: drop_Suc_Cons)
    have "length (replaceAll p r (drop (length p) (c # cs))) \<le> length (drop (length p) (c # cs))"
      using 2(3) by (intro length_replaceAll_le) simp
    then have "length (replaceAll p r (drop (length p) (c # cs))) \<le> length (c # cs) - length p"
      by (simp del: drop_Suc_Cons)
    with le 2(3) show ?thesis unfolding eq by (simp del: drop_Suc_Cons)
  next
    case False
    then have eq: "replaceAll p r (c # cs) = c # replaceAll p r cs"
      by simp
    from False 2(4) have "jsIncludes cs p" by simp
    with 2(2) False 2(3) have "length (replaceAll p r cs) < length cs" by simp
    then show ?thesis unfolding eq by simp
  qed
qed

text \<open>A string is a fixed point of the decoder exactly when no entity occurs in it: a
  pass that finds its entity shortens the text, and no pass lengthens it.\<close>

lemma decode_fixed_iff: "decodeHtmlEntities t = t \<longleftrightarrow> \<not> hasEntity t"
proof
  assume "\<not> hasEntity t"
  then show "decodeHtmlEntities t = t"
    by (simp add: hasEntity_def entities_def decodeHtmlEntities_def replaceAll_absent)
next
  assume fixed: "decodeHtmlEntities t = t"
  define t1 where "t1 = replaceAll (js ''&amp;'') (js ''&'') t"
  define t2 where "t2 = replaceAll (js ''&lt;'') (js ''<'') t1"
  define t3 where "t3 = replaceAll (js ''&gt;'') (js ''>'') t2"
  define t4 where "t4 = replaceAll (js ''&quot;'') [34] t3"
  define t5 where "t5 = replaceAll (js ''&#39;'') [39] t4"
  have t5: "t5 = t"
    using fixed by (simp add: decodeHtmlEntities_def t1_def t2_def t3_def t4_def t5_def)
  have l2: "length t2 \<le> length t1" unfolding t2_def by (rule length_replaceAll_le) (simp add: js_def)
  have l3: "length t3 \<le> length t2" unfolding t3_def by (rule length_replaceAll_le) (simp add: js_def)
  have l4: "length t4 \<le> length t3" unfolding t4_def by (rule length_replaceAll_le) (simp add: js_def)
  have l5: "length t5 \<le> length t4" unfolding t5_def by (rule length_replaceAll_le) (simp add: js_def)
  have n1: "\<not> jsIncludes t (js ''&amp;'')"
  proof
    assume "jsIncludes t (js ''&amp;'')"
    then have "length t1 < length t"
      unfolding t1_def by (intro length_replaceAll_less) (simp_all add: js_def)
    with l2 l3 l4 l5 t5 show False by simp
  qed
  then have e1: "t1 = t" by (simp add: t1_def replaceAll_absent)
  have n2: "\<not> jsIncludes t (js ''&lt;'')"
  proof
    assume "jsIncludes t (js ''&lt;'')"
    then have "length t2 < length t"
      unfolding t2_def e1 by (intro length_replaceAll_less) (simp_all add: js_def)
    with l3 l4 l5 t5 show False by simp
  qed
  then have e2: "t2 = t" by (simp add: t2_def e1 replaceAll_absent)
  have n3: "\<not> jsIncludes t (js ''&gt;'')"
  proof
    assume "jsIncludes t (js ''&gt;'')"
    then have "length t3 < length t"
      unfolding t3_def e2 by (intro length_replaceAll_less) (simp_all add: js_def)
    with l4 l5 t5 show False by simp
  qed
  then have e3: "t3 = t" by (simp add: t3_def e2 replaceAll_absent)
  have n4: "\<not> jsIncludes t (js ''&quot;'')"
  proof
    assume "jsIncludes t (js ''&quot;'')"
    then have "length t4 < length t"
      unfolding t4_def e3 by (intro length_replaceAll_less) (simp_all add: js_def)
    with l5 t5 show False by simp
  qed
  then have e4: "t4 = t" by (simp add: t4_def e3 replaceAll_absent)
  have n5: "\<not> jsIncludes t (js ''&#39;'')"
  proof
    assume "jsIncludes t (js ''&#39;'')"
    then have "length t5 < length t"
      unfolding t5_def e4 by (intro length_replaceAll_less) (simp_all add: js_def)
    with t5 show False by simp
  qed
  from n1 n2 n3 n4 n5 show "\<not> hasEntity t"
    by (simp add: hasEntity_def entities_def)
qed

lemma decode_only_amp:
  assumes "\<not> hasEntity (replaceAll (js ''&amp;'') (js ''&'') s)"
  shows "decodeHtmlEntities s = replaceAll (js ''&amp;'') (js ''&'') s"
  using assms by (simp add: hasEntity_def entities_def decodeHtmlEntities_def replaceAll_absent)

text \<open>
  C6, as the code has it: the decoder replaces \<open>&amp;\<close> first and then runs the four other
  replacements on the result. If replacing each \<open>&amp;\<close> by \<open>&\<close> leaves no entity in the
  text, one application does exactly that replacement and a second application changes
  nothing. In general a second application changes nothing if and only if the first
  result contains none of the five entities.
\<close>

theorem decodeHtmlEntities_redecode:
  "(\<not> hasEntity (replaceAll (js ''&amp;'') (js ''&'') s) \<longrightarrow>
      decodeHtmlEntities s = replaceAll (js ''&amp;'') (js ''&'') s \<and>
      decodeHtmlEntities (decodeHtmlEntities s) = decodeHtmlEntities s)
   \<and> (decodeHtmlEntities (decodeHtmlEntities s) = decodeHtmlEntities s
        \<longleftrightarrow> \<not> hasEntity (decodeHtmlEntities s))"
proof (intro conjI impI)
  assume a: "\<not> hasEntity (replaceAll (js ''&amp;'') (js ''&'') s)"
  show d: "decodeHtmlEntities s = replaceAll (js ''&amp;'') (js ''&'') s"
    using a by (rule decode_only_amp)
  show "decodeHtmlEntities (decodeHtmlEntities s) = decodeHtmlEntities s"
    using a by (simp only: d decode_fixed_iff simp_thms)
next
  show "decodeHtmlEntities (decodeHtmlEntities s) = decodeHtmlEntities s
        \<longleftrightarrow> \<not> hasEntity (decodeHtmlEntities s)"
    by (rule decode_fixed_iff)
qed

text \<open>C6 on an image URL with one \<open>&amp;\<close> between its query parameters.\<close>

theorem decodeHtmlEntities_redecode_witness:
  "\<not> hasEntity (replaceAll (js ''&amp;'') (js ''&'') (js ''/a.jpg?x=1&amp;y=2'')) \<and>
   decodeHtmlEntities (js ''/a.jpg?x=1&amp;y=2'') = js ''/a.jpg?x=1&y=2'' \<and>
   decodeHtmlEntities (decodeHtmlEntities (js ''/a.jpg?x=1&amp;y=2''))
     = decodeHtmlEntities (js ''/a.jpg?x=1&amp;y=2'')"
proof -
  have r: "replaceAll (js ''&amp;'') (js ''&'') (js ''/a.jpg?x=1&amp;y=2'') = js ''/a.jpg?x=1&y=2''"
    by (simp add: js_def startsWith_def)
  have h: "\<not> hasEntity (js ''/a.jpg?x=1&y=2'')"
    by (simp add: hasEntity_def entities_def js_def startsWith_def)
  from h have a: "\<not> hasEntity (replaceAll (js ''&amp;'') (js ''&'') (js ''/a.jpg?x=1&amp;y=2''))"
    by (simp only: r simp_thms)
  from decodeHtmlEntities_redecode [of "js ''/a.jpg?x=1&amp;y=2''", THEN conjunct1, THEN mp, OF a]
  have "decodeHtmlEntities (js ''/a.jpg?x=1&amp;y=2'')
          = replaceAll (js ''&amp;'') (js ''&'') (js ''/a.jpg?x=1&amp;y=2'')"
    and "decodeHtmlEntities (decodeHtmlEntities (js ''/a.jpg?x=1&amp;y=2''))
          = decodeHtmlEntities (js ''/a.jpg?x=1&amp;y=2'')"
    by blast+
  with a r show ?thesis by simp
qed

text \<open>C6 as stated fails: \<open>&amp;amp;\<close> decodes to \<open>&amp;\<close>, which a second application
  changes to \<open>&\<close>; and in \<open>&amp;lt;\<close> the \<open>&amp;\<close> is not decoded to \<open>&\<close>, since one
  application already gives \<open><\<close>.\<close>

theorem decodeHtmlEntities_not_idempotent:
  "decodeHtmlEntities (js ''&amp;amp;'') = js ''&amp;'' \<and>
   decodeHtmlEntities (decodeHtmlEntities (js ''&amp;amp;'')) = js ''&'' \<and>
   decodeHtmlEntities (js ''&amp;lt;'') = js ''<''"
  by (simp add: decodeHtmlEntities_def js_def startsWith_def)

section \<open>Search extractor\<close>

lemma searchLoop_seen:
  "u \<in> seen \<Longrightarrow> filter (\<lambda>r. sr_detailUrl r = u) (searchLoop seen els) = []"
proof (induction els arbitrary: seen)
  case Nil
  then show ?case by simp
next
  case (Cons el els)
  then show ?case
    by (auto simp: Let_def toResult_def)
qed

lemma searchLoop_count:
  "u \<notin> seen \<Longrightarrow>
   length (filter (\<lambda>r. sr_detailUrl r = u) (searchLoop seen els)) =
     (case find (\<lambda>el. detailUrlOf el = u) els of
        None \<Rightarrow> 0
      | Some el \<Rightarrow> if accepted el then 1 else 0)"
proof (induction els arbitrary: seen)
  case Nil
  then show ?case by simp
next
  case (Cons el els)
  show ?case
  proof (cases "detailUrlOf el = u")
    case True
    with Cons.prems show ?thesis
      by (simp add: Let_def toResult_def detailUrlOf_def searchLoop_seen)
  next
    case False
    with Cons.prems have "u \<notin> insert (detailUrlOf el) seen" by simp
    from Cons.IH [OF this] Cons.IH [OF Cons.prems] False show ?thesis
      by (simp add: Let_def toResult_def detailUrlOf_def)
  qed
qed

lemma anchorWithTitle_url:
  "detailUrlOf (anchorWithTitle t) = js ''https://tw.xgcartoon.com/detail/abc''"
  by (simp add: detailUrlOf_def anchorWithTitle_def absoluteDetailUrl_def orElse_def
        startsWith_def SEARCH_BASE_def js_def)

lemma accepted_Naruto: "accepted (anchorWithTitle ''Naruto'')"
  by (simp add: accepted_def extractTitle_def anchorWithTitle_def longer_def trim_def js_def
        isSpace_def)

lemma not_accepted_empty: "\<not> accepted (anchorWithTitle [])"
  by (simp add: accepted_def extractTitle_def anchorWithTitle_def longer_def trim_def js_def)

text \<open>
  C3, as the code has it: for every search page and every URL, the number of results the
  extractor produces for that URL is decided by the first anchor, in document order,
  whose normalized URL it is: one result if that anchor passes the title filter, none if
  it fails it (its URL is recorded as seen before the title is examined, so the later
  anchors for it are dropped either way), and none if no anchor points at the URL.
\<close>

theorem searchAnime_results_per_url:
  "length (filter (\<lambda>r. sr_detailUrl r = u) (searchAnime anchors)) =
     (case find (\<lambda>el. detailUrlOf el = u) anchors of
        None \<Rightarrow> 0
      | Some el \<Rightarrow> if accepted el then 1 else 0)"
  by (simp add: searchAnime_def searchLoop_count)

text \<open>C3 on a page with three anchors for one URL, the first of which has a title.\<close>

theorem searchAnime_results_per_url_witness:
  "length (filter (\<lambda>r. sr_detailUrl r = js ''https://tw.xgcartoon.com/detail/abc'')
     (searchAnime [anchorWithTitle ''Naruto'', anchorWithTitle [], anchorWithTitle ''Naruto''])) = 1"
  using searchAnime_results_per_url [of "js ''https://tw.xgcartoon.com/detail/abc''"
          "[anchorWithTitle ''Naruto'', anchorWithTitle [], anchorWithTitle ''Naruto'']"]
  by (simp add: anchorWithTitle_url accepted_Naruto)

text \<open>C3 as stated fails: two anchors point at one URL, the first has no title text and
  the second has the title \<open>Naruto\<close>; the extractor produces no result at all.\<close>

theorem searchAnime_dedup_counterexample:
  "detailUrlOf (anchorWithTitle []) = detailUrlOf (anchorWithTitle ''Naruto'') \<and>
   accepted (anchorWithTitle ''Naruto'') \<and>
   searchAnime [anchorWithTitle [], anchorWithTitle ''Naruto''] = []"
proof -
  have "searchLoop {} [anchorWithTitle [], anchorWithTitle ''Naruto''] = []"
    using anchorWithTitle_url [of "[]"] anchorWithTitle_url [of "''Naruto''"] not_accepted_empty
    by (simp add: detailUrlOf_def Let_def)
  then show ?thesis
    by (simp add: searchAnime_def anchorWithTitle_url accepted_Naruto)
qed

section \<open>Redirect targets\<close>

lemma redirectUrl_root_relative:
  "startsWith loc (js ''/'') \<Longrightarrow>
   redirectUrl parsed loc = protocol parsed @ js ''//'' @ host parsed @ loc"
  by (simp add: redirectUrl_def)

lemma redirectUrl_bare_relative:
  "\<not> startsWith loc (js ''/'') \<Longrightarrow> \<not> startsWith loc (js ''http'') \<Longrightarrow>
   redirectUrl parsed loc = protocol parsed @ js ''//'' @ host parsed @ js ''/'' @ loc"
  by (simp add: redirectUrl_def)

text \<open>
  C5 at a protocol-relative location: for the request URL \<open>https://tw.xgcartoon.com/a\<close>
  and \<open>Location: //cdn.example.com/v/1\<close> the function takes the first branch, since the
  location starts with a slash, and puts the location behind the original host; the
  claim's target is \<open>https://cdn.example.com/v/1\<close>.
\<close>

theorem redirectUrl_protocol_relative:
  "redirectUrl \<lparr>protocol = js ''https:'', host = js ''tw.xgcartoon.com''\<rparr>
       (js ''//cdn.example.com/v/1'')
     = js ''https://tw.xgcartoon.com//cdn.example.com/v/1'' \<and>
   onResponse \<lparr>protocol = js ''https:'', host = js ''tw.xgcartoon.com''\<rparr>
       \<lparr>statusCode = Some 302, location = Some (js ''//cdn.example.com/v/1'')\<rparr>
     = Follow (js ''https://tw.xgcartoon.com//cdn.example.com/v/1'')"
  by (simp add: onResponse_def orElse_def redirectUrl_def startsWith_def js_def)

section \<open>Download queue\<close>

lemma processQueue_head:
  "downloadQueue st = item # rest \<Longrightarrow> opt_episodes (options item) \<noteq> [] \<Longrightarrow>
   \<exists>w. w_item w = item \<and>
       processQueue st =
         (st\<lparr>queueProcessing := True, spawned := spawned st @ [w],
              activeDownloadProcess := Some (length (spawned st))\<rparr>, None)"
proof -
  assume q: "downloadQueue st = item # rest" and ne: "opt_episodes (options item) \<noteq> []"
  then obtain firstEp more where eps: "opt_episodes (options item) = firstEp # more"
    by (cases "opt_episodes (options item)") auto
  let ?w = "\<lparr>w_args = [videoUrlOf (cartoonId (options item)) firstEp, outputDir (options item)]
                       @ rangeArgs (opt_episodes (options item)),
              w_item = item\<rparr>"
  have "w_item ?w = item" by simp
  moreover have "processQueue st =
         (st\<lparr>queueProcessing := True, spawned := spawned st @ [?w],
              activeDownloadProcess := Some (length (spawned st))\<rparr>, None)"
    using q eps by (simp add: processQueue_def Let_def)
  ultimately show ?thesis by blast
qed

lemma processQueue_head_empty:
  "downloadQueue st = item # rest \<Longrightarrow> opt_episodes (options item) = [] \<Longrightarrow>
   processQueue st = (st\<lparr>queueProcessing := True\<rparr>, Some TypeError)"
  by (simp add: processQueue_def Let_def)

lemma startDownload_busy:
  "queueProcessing st \<Longrightarrow>
   startDownload item st = (st\<lparr>downloadQueue := downloadQueue st @ [item]\<rparr>, None)"
  by (simp add: startDownload_def Let_def)

text \<open>
  C9: promotion throws exactly when the job at the head of the queue has no episodes.
  Then it has raised the flag and spawned nothing, and so does a submission of such a job
  to an idle queue. When the head job has an episode, promotion does not throw and spawns
  one worker for that job; on an empty queue it does not throw either.
\<close>

theorem processQueue_throws_iff:
  "(snd (processQueue st) = Some TypeError \<longleftrightarrow>
      (case downloadQueue st of [] \<Rightarrow> False | item # _ \<Rightarrow> opt_episodes (options item) = []))
   \<and> (snd (processQueue st) \<noteq> Some TypeError \<longrightarrow> snd (processQueue st) = None)
   \<and> (snd (processQueue st) = Some TypeError \<longrightarrow>
        fst (processQueue st) = st\<lparr>queueProcessing := True\<rparr>)
   \<and> (case downloadQueue st of
        [] \<Rightarrow> True
      | item # _ \<Rightarrow>
          opt_episodes (options item) \<noteq> [] \<longrightarrow>
            map w_item (spawned (fst (processQueue st))) = map w_item (spawned st) @ [item] \<and>
            activeDownloadProcess (fst (processQueue st)) = Some (length (spawned st)))
   \<and> (idle st \<and> opt_episodes (options new) = [] \<longrightarrow>
        snd (startDownload new st) = Some TypeError \<and>
        spawned (fst (startDownload new st)) = spawned st \<and>
        activeDownloadProcess (fst (startDownload new st)) = None)"
proof (cases "downloadQueue st")
  case Nil
  then show ?thesis
    by (simp add: processQueue_def idle_def startDownload_def Let_def)
next
  case (Cons item rest)
  show ?thesis
  proof (cases "opt_episodes (options item) = []")
    case True
    from processQueue_head_empty [OF Cons True] Cons True show ?thesis
      by (simp add: idle_def)
  next
    case False
    from processQueue_head [OF Cons False] Cons False show ?thesis
      by (auto simp: idle_def)
  qed
qed

text \<open>C9 on two states: a queue headed by a job without episodes, where promotion
  throws, and an idle queue that is given a job with one episode, which is spawned.\<close>

theorem processQueue_throws_iff_witness:
  "snd (processQueue (initialState\<lparr>downloadQueue := [job 1 ''a'' []]\<rparr>)) = Some TypeError \<and>
   spawned (fst (processQueue (initialState\<lparr>downloadQueue := [job 1 ''a'' []]\<rparr>))) = [] \<and>
   snd (processQueue (initialState\<lparr>downloadQueue := [jobA]\<rparr>)) = None \<and>
   map w_item (spawned (fst (processQueue
       (initialState\<lparr>downloadQueue := [jobA]\<rparr>))))
     = [jobA]"
  using processQueue_throws_iff [of "initialState\<lparr>downloadQueue := [job 1 ''a'' []]\<rparr>"]
        processQueue_throws_iff [of "initialState\<lparr>downloadQueue := [jobA]\<rparr>"]
  by (simp add: initialState_def job_def jobA_def)

text \<open>
  C4: from an idle queue, submitting jobs \<open>A\<close>, \<open>B\<close>, \<open>C\<close> (each with at least one episode)
  in that order spawns a worker for \<open>A\<close> at the first submission and no other; \<open>B\<close> and
  \<open>C\<close> stay behind \<open>A\<close> in the queue in that order. When \<open>A\<close>'s worker closes, with any
  exit code or none, the handler alone removes \<open>A\<close> and spawns a worker for \<open>B\<close>. If
  instead cancel is called while \<open>A\<close> is active, the queue is emptied, \<open>A\<close>'s worker is
  killed, and when that worker then closes nothing is spawned and the queue is idle.
\<close>

theorem queue_scenario:
  assumes "idle st0"
    and "opt_episodes (options A) \<noteq> []"
    and "opt_episodes (options B) \<noteq> []"
    and "opt_episodes (options C) \<noteq> []"
  shows "\<exists>s1 s2 s3.
      startDownload A st0 = (s1, None) \<and> startDownload B s1 = (s2, None) \<and>
      startDownload C s2 = (s3, None) \<and>
      activeDownloadProcess s1 = Some (length (spawned st0)) \<and>
      map w_item (spawned s1) = map w_item (spawned st0) @ [A] \<and>
      downloadQueue s3 = [A, B, C] \<and>
      activeDownloadProcess s3 = Some (length (spawned st0)) \<and>
      spawned s3 = spawned s1 \<and> killed s3 = killed st0 \<and>
      (\<forall>code. \<exists>s4. onClose (length (spawned st0)) code s3 = (s4, None) \<and>
          downloadQueue s4 = [B, C] \<and>
          activeDownloadProcess s4 = Some (Suc (length (spawned st0))) \<and>
          map w_item (spawned s4) = map w_item (spawned st0) @ [A, B] \<and> killed s4 = killed st0) \<and>
      (\<exists>s5. cancelDownload s3 = (s5, True) \<and>
          downloadQueue s5 = [] \<and> activeDownloadProcess s5 = None \<and>
          killed s5 = killed st0 @ [length (spawned st0)] \<and> spawned s5 = spawned s3 \<and>
          (\<forall>code. \<exists>s6. onClose (length (spawned st0)) code s5 = (s6, None) \<and>
              downloadQueue s6 = [] \<and> activeDownloadProcess s6 = None \<and>
              \<not> queueProcessing s6 \<and> spawned s6 = spawned s3))"
proof -
  let ?p = "length (spawned st0)"
  let ?q0 = "st0\<lparr>downloadQueue := downloadQueue st0 @ [A]\<rparr>"
  from assms(1) have q0: "downloadQueue ?q0 = A # []" by (simp add: idle_def)
  from processQueue_head [OF q0 assms(2)] obtain wA where
    wA: "w_item wA = A" and
    pA: "processQueue ?q0 = (?q0\<lparr>queueProcessing := True, spawned := spawned ?q0 @ [wA],
                                  activeDownloadProcess := Some (length (spawned ?q0))\<rparr>, None)"
    by blast
  define s1 where "s1 = ?q0\<lparr>queueProcessing := True, spawned := spawned st0 @ [wA],
                            activeDownloadProcess := Some ?p\<rparr>"
  define s2 where "s2 = s1\<lparr>downloadQueue := downloadQueue s1 @ [B]\<rparr>"
  define s3 where "s3 = s2\<lparr>downloadQueue := downloadQueue s2 @ [C]\<rparr>"
  have e1: "startDownload A st0 = (s1, None)"
    using assms(1) pA by (simp add: startDownload_def Let_def idle_def s1_def)
  have e2: "startDownload B s1 = (s2, None)"
    unfolding s2_def by (rule startDownload_busy) (simp add: s1_def)
  have e3: "startDownload C s2 = (s3, None)"
    unfolding s3_def by (rule startDownload_busy) (simp add: s1_def s2_def)
  have q3: "downloadQueue s3 = [A, B, C]"
    using assms(1) by (simp add: s1_def s2_def s3_def idle_def)
  have sp3: "spawned s3 = spawned st0 @ [wA]"
    by (simp add: s1_def s2_def s3_def)
  have close3: "\<exists>s4. onClose ?p code s3 = (s4, None) \<and>
          downloadQueue s4 = [B, C] \<and>
          activeDownloadProcess s4 = Some (Suc ?p) \<and>
          map w_item (spawned s4) = map w_item (spawned st0) @ [A, B] \<and> killed s4 = killed st0"
    for code
  proof -
    let ?t = "s3\<lparr>activeDownloadProcess := None,
                 sent := sent s3 @ [(win (w_item (spawned s3 ! ?p)),
                                     DownloadComplete (case code of None \<Rightarrow> 1 | Some c \<Rightarrow> c))],
                 downloadQueue := drop 1 (downloadQueue s3)\<rparr>"
    have qt: "downloadQueue ?t = B # [C]" using q3 by simp
    from processQueue_head [OF qt assms(3)] obtain wB where
      wB: "w_item wB = B" and
      pB: "processQueue ?t = (?t\<lparr>queueProcessing := True, spawned := spawned ?t @ [wB],
                                  activeDownloadProcess := Some (length (spawned ?t))\<rparr>, None)"
      by blast
    have "onClose ?p code s3 = processQueue ?t"
      by (simp add: onClose_def sp3)
    with pB wA wB q3 sp3 show ?thesis
      by (simp add: s1_def s2_def s3_def)
  qed
  define s5 where "s5 = s3\<lparr>downloadQueue := [], killed := killed s3 @ [?p],
                            activeDownloadProcess := None\<rparr>"
  have c5: "cancelDownload s3 = (s5, True)"
    by (simp add: cancelDownload_def Let_def s5_def s3_def s2_def s1_def)
  have close5: "\<exists>s6. onClose ?p code s5 = (s6, None) \<and>
              downloadQueue s6 = [] \<and> activeDownloadProcess s6 = None \<and>
              \<not> queueProcessing s6 \<and> spawned s6 = spawned s3" for code
    by (simp add: onClose_def processQueue_def s5_def sp3)
  have "activeDownloadProcess s1 = Some ?p" "map w_item (spawned s1) = map w_item (spawned st0) @ [A]"
    "activeDownloadProcess s3 = Some ?p" "spawned s3 = spawned s1" "killed s3 = killed st0"
    using wA by (simp_all add: s1_def s2_def s3_def)
  moreover have "downloadQueue s5 = []" "activeDownloadProcess s5 = None"
    "killed s5 = killed st0 @ [?p]" "spawned s5 = spawned s3"
    by (simp_all add: s5_def s1_def s2_def s3_def)
  ultimately show ?thesis
    using e1 e2 e3 q3 close3 c5 close5 by blast
qed

text \<open>C4 from the initial state, with three jobs of one episode each.\<close>

theorem queue_scenario_witness:
  "idle initialState \<and>
   opt_episodes (options jobA) \<noteq> [] \<and>
   opt_episodes (options jobB) \<noteq> [] \<and>
   opt_episodes (options jobC) \<noteq> [] \<and>
   (\<exists>s1 s2 s3.
      startDownload jobA initialState = (s1, None) \<and> startDownload jobB s1 = (s2, None) \<and>
      startDownload jobC s2 = (s3, None) \<and>
      activeDownloadProcess s1 = Some (length (spawned initialState)) \<and>
      map w_item (spawned s1) = map w_item (spawned initialState) @ [jobA] \<and>
      downloadQueue s3 = [jobA, jobB, jobC] \<and>
      activeDownloadProcess s3 = Some (length (spawned initialState)) \<and>
      spawned s3 = spawned s1 \<and> killed s3 = killed initialState \<and>
      (\<forall>code. \<exists>s4. onClose (length (spawned initialState)) code s3 = (s4, None) \<and>
          downloadQueue s4 = [jobB, jobC] \<and>
          activeDownloadProcess s4 = Some (Suc (length (spawned initialState))) \<and>
          map w_item (spawned s4) = map w_item (spawned initialState) @ [jobA, jobB] \<and>
          killed s4 = killed initialState) \<and>
      (\<exists>s5. cancelDownload s3 = (s5, True) \<and>
          downloadQueue s5 = [] \<and> activeDownloadProcess s5 = None \<and>
          killed s5 = killed initialState @ [length (spawned initialState)] \<and>
          spawned s5 = spawned s3 \<and>
          (\<forall>code. \<exists>s6. onClose (length (spawned initialState)) code s5 = (s6, None) \<and>
              downloadQueue s6 = [] \<and> activeDownloadProcess s6 = None \<and>
              \<not> queueProcessing s6 \<and> spawned s6 = spawned s3)))"
proof -
  have i: "idle initialState"
    by (simp add: idle_def initialState_def)
  have a: "opt_episodes (options jobA) \<noteq> []"
    and b: "opt_episodes (options jobB) \<noteq> []"
    and c: "opt_episodes (options jobC) \<noteq> []"
    by (simp_all add: jobA_def jobB_def jobC_def job_def)
  show ?thesis
    by (intro conjI i a b c queue_scenario [OF i a b c])
qed

section \<open>Progress protocol parser\<close>

lemma progress_match:
  "search progressRe progressLine = Some
    [(6, js ''00:14''), (5, js ''3.1MB/s''), (4, js ''120MB''), (3, js ''50MB''),
     (2, js ''42.5''), (1, js ''005'')]"
  by (simp add: progressRe_def progressLine_def js_def Plus_def execAt_def
        isSpace_def isDigit_def isLineTerminator_def)

lemma trim_progressLine: "trim progressLine = progressLine"
  by (simp add: trim_def progressLine_def js_def isSpace_def)

lemma progressLine_nonempty: "progressLine \<noteq> []"
  by (simp add: progressLine_def js_def)

text \<open>
  C7: on the line \<open>Ep.005 [....] 42.5% | 50MB/120MB | 3.1MB/s | 00:10 | ETA: 00:14\<close>, whose
  bar is four full and two light blocks, the classifier sends one progress message with
  episode 5, percent 42.5, downloaded \<open>50MB\<close>, total \<open>120MB\<close>, speed \<open>3.1MB/s\<close>, eta
  \<open>00:14\<close> and no status; the line handler, which trims first, sends the same.
\<close>

theorem classifyLine_progress_example:
  "classifyLine cid progressLine =
     [DownloadProgress \<lparr>pd_cartoonId = cid, episode = 5, percent = 42.5,
        downloaded = Some (js ''50MB''), total = Some (js ''120MB''),
        speed = Some (js ''3.1MB/s''), eta = Some (js ''00:14''),
        status = None, filename = None\<rparr>]
   \<and> handleRawLine cid progressLine = classifyLine cid progressLine"
proof
  show "classifyLine cid progressLine =
     [DownloadProgress \<lparr>pd_cartoonId = cid, episode = 5, percent = 42.5,
        downloaded = Some (js ''50MB''), total = Some (js ''120MB''),
        speed = Some (js ''3.1MB/s''), eta = Some (js ''00:14''),
        status = None, filename = None\<rparr>]"
    by (simp add: classifyLine_def progress_match group_def parseInt_def parseFloat_def
          startsWith_def isDigit_def js_def)
  show "handleRawLine cid progressLine = classifyLine cid progressLine"
    by (simp add: handleRawLine_def trim_progressLine progressLine_nonempty)
qed

lemma splitCRLF_nonempty: "splitCRLF s \<noteq> []"
  by (induction s rule: splitCRLF.induct) (auto split: list.splits)

lemma splitCRLF_prepend:
  "\<forall>c \<in> set x. \<not> isCRLF c \<Longrightarrow>
   splitCRLF (x @ y) = (x @ hd (splitCRLF y)) # tl (splitCRLF y)"
proof (induction x)
  case Nil
  then show ?case using splitCRLF_nonempty [of y] by simp
next
  case (Cons a x)
  then show ?case by simp
qed

lemma scanLines_dropWhile: "scanLines [] (dropWhile isCRLF cs) = scanLines [] cs"
  by (induction cs) (auto split: prod.splits)

text \<open>The fields of the split, without the empty ones and the last, are the completed
  lines of the character-by-character reading; the last field is the line in progress.\<close>

lemma split_scan:
  "\<forall>c \<in> set cur. \<not> isCRLF c \<Longrightarrow>
   (filter (\<lambda>l. l \<noteq> []) (butlast (splitCRLF (cur @ s))), last (splitCRLF (cur @ s)))
     = scanLines cur s"
proof (induction s arbitrary: cur rule: splitCRLF.induct)
  case 1
  then show ?case using splitCRLF_prepend [of cur "[]"] by simp
next
  case (2 c cs)
  show ?case
  proof (cases "isCRLF c")
    case True
    let ?X = "splitCRLF (dropWhile isCRLF cs)"
    have X: "?X \<noteq> []" by (rule splitCRLF_nonempty)
    have "splitCRLF (cur @ c # cs) = cur # ?X"
      using splitCRLF_prepend [OF 2(3), of "c # cs"] True by simp
    moreover have "(filter (\<lambda>l. l \<noteq> []) (butlast ?X), last ?X) = scanLines [] cs"
      using 2(1) [OF True, of "[]"] by (simp add: scanLines_dropWhile)
    ultimately show ?thesis
      using True X by (auto split: prod.splits)
  next
    case False
    with 2(3) have "\<forall>x \<in> set (cur @ [c]). \<not> isCRLF x" by simp
    from 2(2) [OF False this] False show ?thesis by simp
  qed
qed

lemma scanLines_append:
  "scanLines cur (s @ t) =
     (case scanLines cur s of (ls, k) \<Rightarrow>
        (case scanLines k t of (ls', k') \<Rightarrow> (ls @ ls', k')))"
  by (induction s arbitrary: cur) (auto split: prod.splits)

lemma scanLines_carry:
  "\<forall>c \<in> set cur. \<not> isCRLF c \<Longrightarrow> \<forall>c \<in> set (snd (scanLines cur s)). \<not> isCRLF c"
proof (induction s arbitrary: cur)
  case Nil
  then show ?case by simp
next
  case (Cons a s)
  show ?case
  proof (cases "isCRLF a")
    case True
    have "\<forall>c \<in> set (snd (scanLines [] s)). \<not> isCRLF c"
      by (rule Cons.IH) simp
    with True show ?thesis by (simp split: prod.splits)
  next
    case False
    with Cons.prems have "\<forall>c \<in> set (cur @ [a]). \<not> isCRLF c" by simp
    from Cons.IH [OF this] False show ?thesis by simp
  qed
qed

lemma handleRawLine_empty: "handleRawLine cid [] = []"
  by (simp add: handleRawLine_def trim_def)

lemma concat_handle_filter:
  "concat (map (handleRawLine cid) (filter (\<lambda>l. l \<noteq> []) ls)) = concat (map (handleRawLine cid) ls)"
  by (induction ls) (simp_all add: handleRawLine_empty)

lemma onStdoutData_scan:
  assumes "\<forall>c \<in> set buffer. \<not> isCRLF c"
  shows "onStdoutData cid buffer data =
           (concat (map (handleRawLine cid) (fst (scanLines buffer data))), snd (scanLines buffer data))"
proof -
  have "fst (scanLines buffer data) = filter (\<lambda>l. l \<noteq> []) (butlast (splitCRLF (buffer @ data)))"
    and "snd (scanLines buffer data) = last (splitCRLF (buffer @ data))"
    using split_scan [OF assms, of data] by (metis fst_conv, metis snd_conv)
  then show ?thesis
    by (simp add: onStdoutData_def Let_def concat_handle_filter)
qed

lemma feedChunks_scan:
  "\<forall>c \<in> set buffer. \<not> isCRLF c \<Longrightarrow>
   feedChunks cid buffer chunks =
     (concat (map (handleRawLine cid) (fst (scanLines buffer (concat chunks)))),
      snd (scanLines buffer (concat chunks)))"
proof (induction chunks arbitrary: buffer)
  case Nil
  then show ?case by simp
next
  case (Cons data rest)
  have carry: "\<forall>c \<in> set (snd (scanLines buffer data)). \<not> isCRLF c"
    using Cons.prems by (rule scanLines_carry)
  show ?case
    using Cons.IH [OF carry]
    by (simp add: onStdoutData_scan [OF Cons.prems] scanLines_append split: prod.splits)
qed

text \<open>
  C8: for every sequence of stdout chunks, fed to the handler one after the other from an
  empty carry-over, the messages sent are exactly those of the fragments of the whole
  stream that a run of CR and LF characters terminates, in order, however the stream was
  cut into chunks; the carry-over is the unterminated rest of the stream, it contains no
  CR or LF, and it has produced no message.
\<close>

theorem feedChunks_complete_lines_only:
  "feedChunks cid [] chunks =
     (concat (map (handleRawLine cid) (butlast (splitCRLF (concat chunks)))),
      last (splitCRLF (concat chunks)))
   \<and> (\<forall>c \<in> set (snd (feedChunks cid [] chunks)). \<not> isCRLF c)"
proof -
  have e: "\<forall>c \<in> set ([]::jstring). \<not> isCRLF c" by simp
  have s: "(filter (\<lambda>l. l \<noteq> []) (butlast (splitCRLF (concat chunks))), last (splitCRLF (concat chunks)))
             = scanLines [] (concat chunks)"
    using split_scan [OF e, of "concat chunks"] by simp
  have "feedChunks cid [] chunks =
     (concat (map (handleRawLine cid) (fst (scanLines [] (concat chunks)))),
      snd (scanLines [] (concat chunks)))"
    by (rule feedChunks_scan [OF e])
  moreover have "\<forall>c \<in> set (snd (scanLines [] (concat chunks))). \<not> isCRLF c"
    by (rule scanLines_carry [OF e])
  ultimately show ?thesis
    unfolding s [symmetric] by (simp add: concat_handle_filter)
qed

lemma ten_X: "replicate 10 (88::nat) = [88, 88, 88, 88, 88, 88, 88, 88, 88, 88]"
proof -
  have "(10::nat) = Suc (Suc (Suc (Suc (Suc (Suc (Suc (Suc (Suc (Suc 0)))))))))"
    by simp
  then show ?thesis
    by (simp only: replicate.simps)
qed

lemma info_line: "handleRawLine cid (js ''[INFO] hi'') = [DownloadLog (js ''[INFO] hi'')]"
  by (simp add: handleRawLine_def classifyLine_def trim_def js_def isSpace_def startsWith_def
        progressRe_def execAt_def ten_X Let_def)

text \<open>C8 on a log line that arrives in two chunks, followed by the start of another line:
  one message, for the terminated line, and the started line is the carry-over.\<close>

theorem feedChunks_complete_lines_only_witness:
  "feedChunks (js ''abc'') [] [js ''[INF'', js ''O] hi'' @ [13], js ''Ep.0'']
     = ([DownloadLog (js ''[INFO] hi'')], js ''Ep.0'')"
proof -
  have s: "splitCRLF (concat [js ''[INF'', js ''O] hi'' @ [13], js ''Ep.0''])
             = [js ''[INFO] hi'', js ''Ep.0'']"
    by (simp add: js_def isCRLF_def)
  have "feedChunks (js ''abc'') [] [js ''[INF'', js ''O] hi'' @ [13], js ''Ep.0''] =
     (concat (map (handleRawLine (js ''abc''))
        (butlast (splitCRLF (concat [js ''[INF'', js ''O] hi'' @ [13], js ''Ep.0''])))),
      last (splitCRLF (concat [js ''[INF'', js ''O] hi'' @ [13], js ''Ep.0''])))"
    using feedChunks_complete_lines_only
            [of "js ''abc''" "[js ''[INF'', js ''O] hi'' @ [13], js ''Ep.0'']"]
    by (rule conjunct1)
  also have "\<dots> = ([DownloadLog (js ''[INFO] hi'')], js ''Ep.0'')"
    unfolding s by (simp add: info_line)
  finally show ?thesis .
qed

section \<open>Episode links without a chapter id\<close>

lemma parse_entry:
  "parseEpisodeLink seen text h = (seen', Some ep) \<Longrightarrow>
   title ep = cleanTitle text \<and> href ep = orElse h []"
  by (auto simp: parseEpisodeLink_def Let_def cleanTitle_def split: if_splits option.splits)

text \<open>A link whose \<open>href\<close> has no chapter id and whose title passes the tests is pushed
  whatever has been seen before, and leaves the set of seen ids as it was.\<close>

lemma parse_no_id:
  "search chapterIdRe (orElse h []) = None \<Longrightarrow> isEpisodeTitle (cleanTitle text) \<Longrightarrow>
   \<exists>ep. parseEpisodeLink seen text h = (seen, Some ep)"
  by (auto simp: parseEpisodeLink_def Let_def cleanTitle_def isEpisodeTitle_def)

lemma collectFlat_count:
  assumes "search chapterIdRe h = None" and "isEpisodeTitle t"
  shows "length (filter (entryIs t h) (collectFlat seen links)) = length (filter (linkIs t h) links)"
proof (induction links arbitrary: seen)
  case Nil
  then show ?case by simp
next
  case (Cons l links)
  show ?case
  proof (cases "linkIs t h l")
    case True
    with assms obtain ep where p: "parseEpisodeLink seen (gl_text l) (gl_href l) = (seen, Some ep)"
      using parse_no_id [of "gl_href l" "gl_text l" seen] by (auto simp: linkIs_def)
    from parse_entry [OF p] True have "entryIs t h ep" by (simp add: entryIs_def linkIs_def)
    with p True Cons.IH show ?thesis by simp
  next
    case False
    obtain seen' r where p: "parseEpisodeLink seen (gl_text l) (gl_href l) = (seen', r)"
      by (cases "parseEpisodeLink seen (gl_text l) (gl_href l)")
    show ?thesis
    proof (cases r)
      case None
      with p False Cons.IH show ?thesis by simp
    next
      case (Some ep)
      with parse_entry [of seen "gl_text l" "gl_href l" seen' ep] p False
      have "\<not> entryIs t h ep" by (auto simp: entryIs_def linkIs_def)
      with p Some False Cons.IH show ?thesis by simp
    qed
  qed
qed

lemma collectChildren_count:
  assumes "search chapterIdRe h = None" and "isEpisodeTitle t"
  shows "length (filter (entryIs t h) (collectChildren seen cs)) = length (filter (childIs t h) cs)"
proof (induction cs arbitrary: seen)
  case Nil
  then show ?case by simp
next
  case (Cons ch cs)
  show ?case
  proof (cases ch)
    case (VolumeTitle t')
    with Cons.IH show ?thesis by (simp add: childIs_def)
  next
    case (Other links)
    show ?thesis
    proof (cases links)
      case Nil
      with Other Cons.IH show ?thesis by (simp add: childIs_def)
    next
      case (Cons l ls)
      let ?text = "concat (map gl_text links)"
      obtain seen' r where p: "parseEpisodeLink seen ?text (gl_href l) = (seen', r)"
        by (cases "parseEpisodeLink seen ?text (gl_href l)")
      show ?thesis
      proof (cases "childIs t h ch")
        case True
        with Cons Other assms obtain ep
          where q: "parseEpisodeLink seen ?text (gl_href l) = (seen, Some ep)"
          using parse_no_id [of "gl_href l" ?text seen] by (auto simp: childIs_def)
        from parse_entry [OF q] True Cons Other have "entryIs t h ep"
          by (simp add: entryIs_def childIs_def)
        with q True Cons Other Cons.IH show ?thesis by simp
      next
        case False
        show ?thesis
        proof (cases r)
          case None
          with p False Cons Other Cons.IH show ?thesis by simp
        next
          case (Some ep)
          with parse_entry [of seen ?text "gl_href l" seen' ep] p False Cons Other
          have "\<not> entryIs t h ep" by (auto simp: entryIs_def childIs_def)
          with p Some False Cons Other Cons.IH show ?thesis by simp
        qed
      qed
    qed
  qed
qed

lemma walkChildren_episodes:
  "concat (map episodes (walkChildren seasons nm eps seen cs)) =
     concat (map episodes seasons) @ eps @ collectChildren seen cs"
proof (induction cs arbitrary: seasons nm eps seen)
  case Nil
  then show ?case by (simp add: pushSeason_def)
next
  case (Cons ch cs)
  show ?case
  proof (cases ch)
    case (VolumeTitle t')
    then show ?thesis by (simp add: Cons.IH pushSeason_def)
  next
    case (Other links)
    then show ?thesis
      by (cases links) (auto simp: Cons.IH split: prod.splits option.splits)
  qed
qed

lemma entry_fixNumbering:
  "length (filter (entryIs t h) (fixNumbering k eps)) = length (filter (entryIs t h) eps)"
  by (induction eps arbitrary: k) (simp_all add: Let_def entryIs_def)

lemma entry_sortAndFix:
  "length (filter (entryIs t h) (sortAndFix eps)) = length (filter (entryIs t h) eps)"
  by (simp add: sortAndFix_def entry_fixNumbering filter_sort)

lemma entry_postProcess:
  "length (filter (entryIs t h) (concat (map episodes (map postProcess ss)))) =
   length (filter (entryIs t h) (concat (map episodes ss)))"
  by (induction ss) (simp_all add: postProcess_def entry_sortAndFix)

lemma fallbackSeasons_episodes:
  "concat (map episodes (fallbackSeasons links)) =
     sortAndFix (collectFlat {} (filter hasChapterIdAttr links))"
  by (simp add: fallbackSeasons_def Let_def)

text \<open>
  C10, as the code has it: let \<open>h\<close> be an \<open>href\<close> without a chapter id token (the
  expression \<open>chapter_id=([a-zA-Z0-9]+)\<close> does not match it) and \<open>t\<close> a title that passes
  the text tests (not empty, no skip word, at least two characters, not a shortcut). Then
  the seasons returned hold exactly as many episodes with title \<open>t\<close> and \<open>href\<close> \<open>h\<close> as
  there are links with that cleaned text and \<open>href\<close>: none of them is dropped as a
  duplicate, even though text and \<open>href\<close> are identical. In the primary strategy the links
  counted are the container's children (a child's links are read as one); in the fallback
  strategy they are the links whose \<open>href\<close> contains \<open>chapter_id=\<close>, since no other link is
  selected there.
\<close>

theorem episodes_without_chapter_id_kept:
  assumes "search chapterIdRe h = None" and "isEpisodeTitle t"
  shows "length (filter (entryIs t h) (concat (map episodes (getSeasons page)))) =
     (case container page of
        Some children \<Rightarrow> length (filter (childIs t h) children)
      | None \<Rightarrow> length (filter (linkIs t h) (filter hasChapterIdAttr (gotoChapterLinks page))))"
proof (cases "container page")
  case None
  then have "length (filter (entryIs t h) (concat (map episodes (getSeasons page)))) =
      length (filter (entryIs t h) (collectFlat {} (filter hasChapterIdAttr (gotoChapterLinks page))))"
    by (simp only: getSeasons_def extractSeasons_def option.case entry_postProcess
          fallbackSeasons_episodes entry_sortAndFix)
  with None show ?thesis
    by (simp only: collectFlat_count [OF assms] option.case)
next
  case (Some children)
  then have "length (filter (entryIs t h) (concat (map episodes (getSeasons page)))) =
      length (filter (entryIs t h) (concat (map episodes (walkChildren [] [] [] {} children))))"
    by (simp only: getSeasons_def extractSeasons_def option.case entry_postProcess)
  with Some show ?thesis
    by (simp add: walkChildren_episodes collectChildren_count [OF assms])
qed

lemma plain_title: "cleanTitle [31532, 49, 35441] = [31532, 49, 35441]"
  by (simp add: cleanTitle_def trim_def isSpace_def)

lemma plain_title_ok: "isEpisodeTitle [31532, 49, 35441]"
  by (simp add: isEpisodeTitle_def SKIP_WORDS_def startsWith_def shortcutRe_def execAt_def
        Plus_def isSpace_def isDigit_def)

lemma plain_href_no_id: "search chapterIdRe (js ''/video/abc/1.html'') = None"
  by (simp add: chapterIdRe_def execAt_def Plus_def js_def)

lemma empty_id_href_no_id: "search chapterIdRe (js ''/v?chapter_id='') = None"
  by (simp add: chapterIdRe_def execAt_def Plus_def js_def)

text \<open>C10 on two pages: a container with a season header and the same link twice, and a
  page without container on which the same link, with an empty \<open>chapter_id=\<close>, occurs twice.
  Both links are kept on each.\<close>

theorem episodes_without_chapter_id_kept_witness:
  "search chapterIdRe (js ''/video/abc/1.html'') = None \<and>
   search chapterIdRe (js ''/v?chapter_id='') = None \<and>
   isEpisodeTitle [31532, 49, 35441] \<and>
   length (filter (entryIs [31532, 49, 35441] (js ''/video/abc/1.html''))
     (concat (map episodes (getSeasons
        \<lparr>container = Some [VolumeTitle (js ''S1''), Other [plainLink], Other [plainLink]],
         gotoChapterLinks = [plainLink, plainLink]\<rparr>)))) = 2 \<and>
   length (filter (entryIs [31532, 49, 35441] (js ''/v?chapter_id=''))
     (concat (map episodes (getSeasons
        \<lparr>container = None,
         gotoChapterLinks = [plainLink\<lparr>gl_href := Some (js ''/v?chapter_id='')\<rparr>,
                             plainLink\<lparr>gl_href := Some (js ''/v?chapter_id='')\<rparr>]\<rparr>)))) = 2"
proof -
  have c: "childIs [31532, 49, 35441] (js ''/video/abc/1.html'') (Other [plainLink])"
    by (simp add: childIs_def plainLink_def plain_title orElse_def js_def)
  have v: "\<not> childIs [31532, 49, 35441] (js ''/video/abc/1.html'') (VolumeTitle (js ''S1''))"
    by (simp add: childIs_def)
  have l: "linkIs [31532, 49, 35441] (js ''/v?chapter_id='')
             (plainLink\<lparr>gl_href := Some (js ''/v?chapter_id='')\<rparr>)"
    by (simp add: linkIs_def plainLink_def plain_title orElse_def js_def)
  have a: "hasChapterIdAttr (plainLink\<lparr>gl_href := Some (js ''/v?chapter_id='')\<rparr>)"
    by (simp add: hasChapterIdAttr_def js_def startsWith_def)
  from episodes_without_chapter_id_kept [OF plain_href_no_id plain_title_ok,
         of "\<lparr>container = Some [VolumeTitle (js ''S1''), Other [plainLink], Other [plainLink]],
              gotoChapterLinks = [plainLink, plainLink]\<rparr>"]
       episodes_without_chapter_id_kept [OF empty_id_href_no_id plain_title_ok,
         of "\<lparr>container = None,
              gotoChapterLinks = [plainLink\<lparr>gl_href := Some (js ''/v?chapter_id='')\<rparr>,
                                  plainLink\<lparr>gl_href := Some (js ''/v?chapter_id='')\<rparr>]\<rparr>"]
  show ?thesis
    by (simp add: c v l a plain_href_no_id empty_id_href_no_id plain_title_ok)
qed

text \<open>C10 as stated fails in the fallback strategy: two \<open>a.goto-chapter\<close> links with the
  same episode title and an \<open>href\<close> without \<open>chapter_id=\<close> are both left out, because the
  fallback selects only links whose \<open>href\<close> contains \<open>chapter_id=\<close>. The page has no
  season at all.\<close>

theorem fallback_ignores_links_without_chapter_id:
  "getSeasons \<lparr>container = None, gotoChapterLinks = [plainLink, plainLink]\<rparr> = []"
  by (simp add: getSeasons_def extractSeasons_def fallbackSeasons_def hasChapterIdAttr_def
        plainLink_def startsWith_def js_def sortAndFix_def)

end
